theory Spec2Isabelle
  imports Complex_Main "HOL-Library.AList"
begin

section \<open>Values\<close>

text \<open>
  A Python float, as far as its order is concerned: not-a-number, the two infinities and
  the finite values. Finite values are read as the real numbers they denote (a positive and
  a negative zero compare equal and are one value here); no rounding is modelled, since the
  tracker only stores and compares the floats it is handed.
\<close>

datatype pyfloat = NaN | NegInf | Fin real | PosInf

text \<open>\<^verbatim>\<open>a <= b\<close> on floats: false as soon as one side is NaN.\<close>

fun fle :: "pyfloat \<Rightarrow> pyfloat \<Rightarrow> bool" where
  "fle NaN b = False"
| "fle NegInf b = (b \<noteq> NaN)"
| "fle (Fin x) b = (case b of Fin y \<Rightarrow> x \<le> y | PosInf \<Rightarrow> True | _ \<Rightarrow> False)"
| "fle PosInf b = (b = PosInf)"

text \<open>\<^verbatim>\<open>a < b\<close>, \<^verbatim>\<open>a >= b\<close> and \<^verbatim>\<open>a > b\<close>.\<close>

definition flt :: "pyfloat \<Rightarrow> pyfloat \<Rightarrow> bool" where
  "flt a b = (fle a b \<and> \<not> fle b a)"

definition fge :: "pyfloat \<Rightarrow> pyfloat \<Rightarrow> bool" where
  "fge a b = fle b a"

definition fgt :: "pyfloat \<Rightarrow> pyfloat \<Rightarrow> bool" where
  "fgt a b = flt b a"

text \<open>
  The argument \<^verbatim>\<open>value\<close> of \<^verbatim>\<open>update\<close> is only ever passed to \<^verbatim>\<open>float(...)\<close>, so an
  argument is represented by what \<^verbatim>\<open>float\<close> makes of it: the float it returns, or the
  refusal (\<^verbatim>\<open>ValueError\<close> or \<^verbatim>\<open>TypeError\<close>).
\<close>

datatype pyvalue = Coercible pyfloat | NotCoercible

text \<open>
  The exceptions of the module. \<^verbatim>\<open>register\<close> and \<^verbatim>\<open>get_history\<close> raise \<^verbatim>\<open>ValueError\<close>
  with three different messages, kept apart here; the failed \<^verbatim>\<open>assert\<close> of
  \<^verbatim>\<open>set_history\<close> is \<open>InvalidHistory\<close>; the failed \<^verbatim>\<open>float(value)\<close> is \<open>InvalidValue\<close>.
  \<open>KeyError\<close>, \<open>AttributeError\<close> and \<open>TypeError\<close> are the interpreter's own.
\<close>

datatype error =
    InvalidDirection
  | DuplicateMetric
  | UnknownMetric
  | InvalidValue
  | InvalidHistory
  | KeyError
  | AttributeError
  | TypeError

definition float_py :: "pyvalue \<Rightarrow> error + pyfloat" where
  "float_py v = (case v of Coercible x \<Rightarrow> Inr x | NotCoercible \<Rightarrow> Inl InvalidValue)"

text \<open>
  What a history list may hold. The tracker itself only appends \<open>MetricObservation\<close>s
  (the namedtuple \<^verbatim>\<open>(value, t)\<close>), but \<^verbatim>\<open>set_history\<close> stores the list it is given, and a
  serialized configuration holds plain two-element records \<^verbatim>\<open>[value, t]\<close>. \<open>Pair\<close> is such a
  record: it has no attributes \<^verbatim>\<open>value\<close> and \<^verbatim>\<open>t\<close> but unpacks into two arguments.
  \<open>Opaque\<close> is any other object: no such attributes, and not unpackable into two arguments.
\<close>

datatype entry = MetricObservation pyfloat int | Pair pyfloat int | Opaque

text \<open>\<^verbatim>\<open>obs.value\<close> and \<^verbatim>\<open>obs.t\<close>.\<close>

fun attr_value :: "entry \<Rightarrow> error + pyfloat" where
  "attr_value (MetricObservation v t) = Inr v"
| "attr_value (Pair v t) = Inl AttributeError"
| "attr_value Opaque = Inl AttributeError"

fun attr_t :: "entry \<Rightarrow> error + int" where
  "attr_t (MetricObservation v t) = Inr t"
| "attr_t (Pair v t) = Inl AttributeError"
| "attr_t Opaque = Inl AttributeError"

text \<open>\<^verbatim>\<open>[obs.value for obs in history]\<close>: the first entry without the attribute raises.\<close>

fun history_values :: "entry list \<Rightarrow> error + pyfloat list" where
  "history_values [] = Inr []"
| "history_values (obs # history) =
     (case attr_value obs of
        Inl e \<Rightarrow> Inl e
      | Inr v \<Rightarrow> (case history_values history of Inl e \<Rightarrow> Inl e | Inr vs \<Rightarrow> Inr (v # vs)))"

text \<open>The argument \<^verbatim>\<open>series\<close> of \<^verbatim>\<open>set_history\<close>: a list, or an object of another type.\<close>

datatype series = PyList "entry list" | NotList

section \<open>Library functions the tracker calls\<close>

text \<open>
  The builtins \<^verbatim>\<open>min\<close> and \<^verbatim>\<open>max\<close> on a non-empty list: keep the first item, replace it
  by a later one that is strictly smaller (larger). The caller never passes an empty list;
  there the builtins raise, which is \<open>None\<close> here.
\<close>

definition py_min :: "pyfloat list \<Rightarrow> pyfloat option" where
  "py_min xs = (case xs of [] \<Rightarrow> None
     | x # rest \<Rightarrow> Some (foldl (\<lambda>m y. if flt y m then y else m) x rest))"

definition py_max :: "pyfloat list \<Rightarrow> pyfloat option" where
  "py_max xs = (case xs of [] \<Rightarrow> None
     | x # rest \<Rightarrow> Some (foldl (\<lambda>m y. if fgt y m then y else m) x rest))"

text \<open>
  \<^verbatim>\<open>numpy.amin\<close> and \<^verbatim>\<open>numpy.amax\<close> on a list without NaN, and \<^verbatim>\<open>numpy.nanmin\<close>,
  \<^verbatim>\<open>numpy.nanmax\<close> on a non-empty list: NaN is replaced by \<open>+inf\<close> (\<open>-inf\<close>), the extremum is
  taken, and the result is NaN when every item was NaN. (On an empty list they raise; the
  tracker guards each call.)
\<close>

definition amin :: "pyfloat \<Rightarrow> pyfloat list \<Rightarrow> pyfloat" where
  "amin x rest = foldl (\<lambda>m y. if fle m y then m else y) x rest"

definition amax :: "pyfloat \<Rightarrow> pyfloat list \<Rightarrow> pyfloat" where
  "amax x rest = foldl (\<lambda>m y. if fle y m then m else y) x rest"

definition replace_nan :: "pyfloat \<Rightarrow> pyfloat list \<Rightarrow> pyfloat list" where
  "replace_nan r xs = map (\<lambda>x. if x = NaN then r else x) xs"

definition nanmin :: "pyfloat list \<Rightarrow> pyfloat" where
  "nanmin xs = (if list_all (\<lambda>x. x = NaN) xs then NaN
     else (case replace_nan PosInf xs of [] \<Rightarrow> NaN | y # ys \<Rightarrow> amin y ys))"

definition nanmax :: "pyfloat list \<Rightarrow> pyfloat" where
  "nanmax xs = (if list_all (\<lambda>x. x = NaN) xs then NaN
     else (case replace_nan NegInf xs of [] \<Rightarrow> NaN | y # ys \<Rightarrow> amax y ys))"

text \<open>
  \<^verbatim>\<open>numpy.argmin\<close> and \<^verbatim>\<open>numpy.argmax\<close> on floats: the running extremum \<open>mp\<close> at index
  \<open>mi\<close> is replaced by item \<open>i\<close> when \<^verbatim>\<open>!(item >= mp)\<close> (\<^verbatim>\<open>!(item <= mp)\<close>), and the scan
  stops at the first NaN, which is returned as the extremum.
\<close>

fun argmin_loop :: "pyfloat \<Rightarrow> nat \<Rightarrow> nat \<Rightarrow> pyfloat list \<Rightarrow> nat" where
  "argmin_loop mp mi i [] = mi"
| "argmin_loop mp mi i (x # xs) =
     (if \<not> fge x mp then (if x = NaN then i else argmin_loop x i (Suc i) xs)
      else argmin_loop mp mi (Suc i) xs)"

fun argmax_loop :: "pyfloat \<Rightarrow> nat \<Rightarrow> nat \<Rightarrow> pyfloat list \<Rightarrow> nat" where
  "argmax_loop mp mi i [] = mi"
| "argmax_loop mp mi i (x # xs) =
     (if \<not> fle x mp then (if x = NaN then i else argmax_loop x i (Suc i) xs)
      else argmax_loop mp mi (Suc i) xs)"

definition np_argmin :: "pyfloat list \<Rightarrow> nat" where
  "np_argmin xs = (case xs of [] \<Rightarrow> 0
     | x # rest \<Rightarrow> if x = NaN then 0 else argmin_loop x 0 1 rest)"

definition np_argmax :: "pyfloat list \<Rightarrow> nat" where
  "np_argmax xs = (case xs of [] \<Rightarrow> 0
     | x # rest \<Rightarrow> if x = NaN then 0 else argmax_loop x 0 1 rest)"


section \<open>The direction classifier\<close>

text \<open>
  What \<^verbatim>\<open>infer_metric_direction\<close> may be given: a string, a metric descriptor, or any
  other object. A descriptor is an instance of \<^verbatim>\<open>keras.metrics.Metric\<close> (with the name of
  its class, the \<^verbatim>\<open>__name__\<close> of the function it wraps, read only when the class is
  \<^verbatim>\<open>MeanMetricWrapper\<close>, and its attribute \<^verbatim>\<open>name\<close>), or a function (with its
  \<^verbatim>\<open>__name__\<close>). \<open>Other\<close> has neither.

  \<^verbatim>\<open>keras.metrics.get\<close> is the external catalog. A call of it returns an object, which
  need not be a descriptor; or it raises \<^verbatim>\<open>ValueError\<close>, as it does on a name it does not
  know; or it raises another exception, as it does with \<^verbatim>\<open>TypeError\<close> on the name of a
  metric class whose constructor needs an argument (a class named by a string is
  instantiated without arguments). Only the \<^verbatim>\<open>ValueError\<close> is caught. \<open>RaisesOther e\<close>
  stands for an exception \<open>e\<close> that is no \<^verbatim>\<open>ValueError\<close>.
\<close>

datatype descriptor = MetricInstance string string string | Function string

datatype metric = Name string | Descriptor descriptor | Other

datatype lookup = Returns metric | RaisesValueError | RaisesOther error

type_synonym catalog = "string \<Rightarrow> lookup"

definition MAX_METRICS :: "string set" where
  "MAX_METRICS = {''Accuracy'', ''BinaryAccuracy'',
     ''CategoricalAccuracy'', ''SparseCategoricalAccuracy'',
     ''TopKCategoricalAccuracy'', ''SparseTopKCategoricalAccuracy'',
     ''TruePositives'', ''TrueNegatives'',
     ''Precision'', ''Recall'', ''AUC'',
     ''SensitivityAtSpecificity'', ''SpecificityAtSensitivity''}"

definition MAX_METRIC_FNS :: "string set" where
  "MAX_METRIC_FNS = {''accuracy'', ''categorical_accuracy'', ''binary_accuracy'',
     ''sparse_categorical_accuracy''}"

text \<open>The name that is looked up after the optional prefix has been cut off.\<close>

definition canonical_name :: "string \<Rightarrow> string" where
  "canonical_name metric_name =
     (if length metric_name > 4 \<and> take 4 metric_name = ''val_''
      then drop 4 metric_name else metric_name)"

text \<open>
  The second half of the function, which every object that is not turned into a direction
  by the first half goes through: the identity of the object (the class name of a metric
  instance, or the name of the function it wraps; \<^verbatim>\<open>__name__\<close> otherwise, which a string
  and \<open>Other\<close> do not have), and the direction of that identity.
\<close>

fun identity :: "descriptor \<Rightarrow> string" where
  "identity (MetricInstance cls fn nm) = (if cls = ''MeanMetricWrapper'' then fn else cls)"
| "identity (Function fn) = fn"

fun identity_of :: "metric \<Rightarrow> error + string" where
  "identity_of (Descriptor d) = Inr (identity d)"
| "identity_of (Name m) = Inl AttributeError"
| "identity_of Other = Inl AttributeError"

definition direction_of_identity :: "string \<Rightarrow> string" where
  "direction_of_identity name =
     (if name \<in> MAX_METRICS \<or> name \<in> MAX_METRIC_FNS then ''max'' else ''min'')"

definition direction_of_object :: "metric \<Rightarrow> error + string" where
  "direction_of_object obj =
     (case identity_of obj of Inl e \<Rightarrow> Inl e | Inr name \<Rightarrow> Inr (direction_of_identity name))"

fun infer_metric_direction :: "catalog \<Rightarrow> metric \<Rightarrow> error + string" where
  "infer_metric_direction cat (Name m) =
     (let metric_name = canonical_name m in
      if metric_name = ''loss'' then Inr ''min''
      else (case cat metric_name of
              RaisesValueError \<Rightarrow> Inr ''min''
            | RaisesOther e \<Rightarrow> Inl e
            | Returns obj \<Rightarrow> direction_of_object obj))"
| "infer_metric_direction cat (Descriptor d) = direction_of_object (Descriptor d)"
| "infer_metric_direction cat Other = direction_of_object Other"

text \<open>\<^verbatim>\<open>metric.name\<close>, as \<^verbatim>\<open>register_metrics\<close> reads it: only a metric instance has it.\<close>

fun attr_name :: "metric \<Rightarrow> error + string" where
  "attr_name (Descriptor (MetricInstance cls fn nm)) = Inr nm"
| "attr_name (Descriptor (Function fn)) = Inl AttributeError"
| "attr_name (Name m) = Inl AttributeError"
| "attr_name Other = Inl AttributeError"

section \<open>The tracker\<close>

text \<open>
  The three attributes of a \<^verbatim>\<open>MetricsTracker\<close>. The two dicts are association lists in
  insertion order; \<open>AList.update\<close> assigns to a key as a dict does (in place when the key is
  there, at the end otherwise). A history list is a value here: two names never share one
  list object.
\<close>

record tracker =
  names :: "string list"
  directions :: "(string \<times> string) list"
  metrics_history :: "(string \<times> entry list) list"

text \<open>
  Every operation returns what the call returns or raises, and the tracker as the call
  leaves it (also when it raises).
\<close>

type_synonym 'a outcome = "(error + 'a) \<times> tracker"

definition empty_tracker :: tracker where
  "empty_tracker = \<lparr>names = [], directions = [], metrics_history = []\<rparr>"

definition exists :: "tracker \<Rightarrow> string \<Rightarrow> bool" where
  "exists tr name = (name \<in> set (names tr))"

definition register :: "catalog \<Rightarrow> tracker \<Rightarrow> string \<Rightarrow> string option \<Rightarrow> unit outcome" where
  "register cat tr name direction =
     (case (case direction of None \<Rightarrow> infer_metric_direction cat (Name name) | Some d \<Rightarrow> Inr d) of
        Inl e \<Rightarrow> (Inl e, tr)
      | Inr d \<Rightarrow>
          if d \<notin> {''min'', ''max''} then (Inl InvalidDirection, tr)
          else if name \<in> set (names tr) then (Inl DuplicateMetric, tr)
          else (Inr (),
                tr\<lparr>names := names tr @ [name],
                   directions := AList.update name d (directions tr),
                   metrics_history := AList.update name [] (metrics_history tr)\<rparr>))"

fun register_metrics :: "catalog \<Rightarrow> tracker \<Rightarrow> metric list \<Rightarrow> unit outcome" where
  "register_metrics cat tr [] = (Inr (), tr)"
| "register_metrics cat tr (m # ms) =
     (case infer_metric_direction cat m of
        Inl e \<Rightarrow> (Inl e, tr)
      | Inr direction \<Rightarrow>
          (case attr_name m of
             Inl e \<Rightarrow> (Inl e, tr)
           | Inr nm \<Rightarrow>
               (case register cat tr nm (Some direction) of
                  (Inl e, tr') \<Rightarrow> (Inl e, tr')
                | (Inr u, tr') \<Rightarrow> register_metrics cat tr' ms)))"

text \<open>The constructor: \<^verbatim>\<open>MetricsTracker(metrics)\<close>, with \<^verbatim>\<open>None\<close> read as the empty list.\<close>

definition MetricsTracker :: "catalog \<Rightarrow> metric list \<Rightarrow> unit outcome" where
  "MetricsTracker cat metrics = register_metrics cat empty_tracker metrics"

definition get_history :: "tracker \<Rightarrow> string \<Rightarrow> error + entry list" where
  "get_history tr name =
     (if name \<notin> set (names tr) then Inl UnknownMetric
      else (case map_of (metrics_history tr) name of
              None \<Rightarrow> Inl KeyError
            | Some history \<Rightarrow> Inr history))"

text \<open>
  \<^verbatim>\<open>update\<close> returns \<^verbatim>\<open>True\<close>, \<^verbatim>\<open>False\<close>, or falls off its end (\<^verbatim>\<open>None\<close>) when the
  direction is neither \<^verbatim>\<open>'max'\<close> nor \<^verbatim>\<open>'min'\<close>. The values of the history are read before
  the new observation is appended.
\<close>

definition update :: "catalog \<Rightarrow> tracker \<Rightarrow> string \<Rightarrow> pyvalue \<Rightarrow> int \<Rightarrow> bool option outcome" where
  "update cat tr name val t =
     (case float_py val of
        Inl e \<Rightarrow> (Inl e, tr)
      | Inr v \<Rightarrow>
          (case (if \<not> exists tr name then register cat tr name None else (Inr (), tr)) of
             (Inl e, tr1) \<Rightarrow> (Inl e, tr1)
           | (Inr u, tr1) \<Rightarrow>
               (case get_history tr1 name of
                  Inl e \<Rightarrow> (Inl e, tr1)
                | Inr history \<Rightarrow>
                    (case history_values history of
                       Inl e \<Rightarrow> (Inl e, tr1)
                     | Inr hv \<Rightarrow>
                         (let tr2 = tr1\<lparr>metrics_history :=
                                AList.update name (history @ [MetricObservation v t])
                                  (metrics_history tr1)\<rparr>
                          in if hv = [] then (Inr (Some True), tr2)
                             else (case map_of (directions tr2) name of
                                     None \<Rightarrow> (Inl KeyError, tr2)
                                   | Some d \<Rightarrow>
                                       if d = ''max'' then (Inr (Some (fge v (nanmax hv))), tr2)
                                       else if d = ''min'' then (Inr (Some (fle v (nanmin hv))), tr2)
                                       else (Inr None, tr2)))))))"

definition set_history :: "catalog \<Rightarrow> tracker \<Rightarrow> string \<Rightarrow> series \<Rightarrow> unit outcome" where
  "set_history cat tr name s =
     (case s of
        NotList \<Rightarrow> (Inl InvalidHistory, tr)
      | PyList entries \<Rightarrow>
          (case (if \<not> exists tr name then register cat tr name None else (Inr (), tr)) of
             (Inl e, tr1) \<Rightarrow> (Inl e, tr1)
           | (Inr u, tr1) \<Rightarrow>
               (Inr (), tr1\<lparr>metrics_history := AList.update name entries (metrics_history tr1)\<rparr>)))"

text \<open>The queries do not change the tracker, so they return the result only.\<close>

definition get_best_value :: "tracker \<Rightarrow> string \<Rightarrow> error + pyfloat option" where
  "get_best_value tr name =
     (case get_history tr name of
        Inl e \<Rightarrow> Inl e
      | Inr history \<Rightarrow>
          if length history = 0 then Inr None
          else (case history_values history of
                  Inl e \<Rightarrow> Inl e
                | Inr hv \<Rightarrow>
                    (case map_of (directions tr) name of
                       None \<Rightarrow> Inl KeyError
                     | Some direction \<Rightarrow>
                         if direction = ''min'' then Inr (py_min hv) else Inr (py_max hv))))"

definition get_best_t :: "tracker \<Rightarrow> string \<Rightarrow> error + int option" where
  "get_best_t tr name =
     (case get_history tr name of
        Inl e \<Rightarrow> Inl e
      | Inr history \<Rightarrow>
          if length history = 0 then Inr None
          else (case history_values history of
                  Inl e \<Rightarrow> Inl e
                | Inr hv \<Rightarrow>
                    (case map_of (directions tr) name of
                       None \<Rightarrow> Inl KeyError
                     | Some direction \<Rightarrow>
                         (let t_index = (if direction = ''min'' then np_argmin hv else np_argmax hv)
                          in (case attr_t (history ! t_index) of
                                Inl e \<Rightarrow> Inl e
                              | Inr t \<Rightarrow> Inr (Some t))))))"



section \<open>Export and import\<close>

record config =
  cfg_names :: "string list"
  cfg_directions :: "(string \<times> string) list"
  cfg_metrics_history :: "(string \<times> entry list) list"

definition get_config :: "tracker \<Rightarrow> config" where
  "get_config tr =
     \<lparr>cfg_names = names tr,
      cfg_directions = directions tr,
      cfg_metrics_history = metrics_history tr\<rparr>"

text \<open>\<^verbatim>\<open>MetricObservation(*obs)\<close>: the constructor takes exactly two arguments.\<close>

fun make_observation :: "entry \<Rightarrow> error + entry" where
  "make_observation (MetricObservation v t) = Inr (MetricObservation v t)"
| "make_observation (Pair v t) = Inr (MetricObservation v t)"
| "make_observation Opaque = Inl TypeError"

fun make_observations :: "entry list \<Rightarrow> error + entry list" where
  "make_observations [] = Inr []"
| "make_observations (obs # data) =
     (case make_observation obs of
        Inl e \<Rightarrow> Inl e
      | Inr ob \<Rightarrow> (case make_observations data of Inl e \<Rightarrow> Inl e | Inr obs' \<Rightarrow> Inr (ob # obs')))"

fun convert_items :: "(string \<times> entry list) list \<Rightarrow> error + (string \<times> entry list) list" where
  "convert_items [] = Inr []"
| "convert_items ((name, data) # items) =
     (case make_observations data of
        Inl e \<Rightarrow> Inl e
      | Inr h \<Rightarrow> (case convert_items items of Inl e \<Rightarrow> Inl e | Inr rest \<Rightarrow> Inr ((name, h) # rest)))"

definition from_config :: "config \<Rightarrow> error + tracker" where
  "from_config cfg =
     (case convert_items (cfg_metrics_history cfg) of
        Inl e \<Rightarrow> Inl e
      | Inr h \<Rightarrow>
          Inr \<lparr>names = cfg_names cfg, directions = cfg_directions cfg, metrics_history = h\<rparr>)"

section \<open>Auxiliary notions for the statements\<close>

text \<open>
  A small catalog for concrete evaluations, with a few of the names \<^verbatim>\<open>keras.metrics.get\<close>
  knows: three function names, a metric class it can instantiate, and a metric class it
  cannot, because the constructor requires the specificity. Every other name is unknown.
\<close>

definition sample_catalog :: catalog where
  "sample_catalog metric_name =
     (case map_of
        [(''accuracy'', Returns (Descriptor (Function ''accuracy''))),
         (''acc'', Returns (Descriptor (Function ''accuracy''))),
         (''mse'', Returns (Descriptor (Function ''mean_squared_error''))),
         (''AUC'', Returns (Descriptor (MetricInstance ''AUC'' [] ''auc''))),
         (''SensitivityAtSpecificity'', RaisesOther TypeError)] metric_name of
        None \<Rightarrow> RaisesValueError
      | Some outcome \<Rightarrow> outcome)"

text \<open>
  The source documents \<^verbatim>\<open>metrics_history\<close> as \<^verbatim>\<open>str -> [MetricObservation]\<close>. A tracker
  is typed as documented when every stored entry is a \<open>MetricObservation\<close>.
\<close>

fun is_observation :: "entry \<Rightarrow> bool" where
  "is_observation (MetricObservation v t) = True"
| "is_observation (Pair v t) = False"
| "is_observation Opaque = False"

definition observations_only :: "tracker \<Rightarrow> bool" where
  "observations_only tr =
     list_all (\<lambda>item. list_all is_observation (snd item)) (metrics_history tr)"

text \<open>
  The trackers a caller can obtain: the empty one, the one built by the
  constructor when it is given metrics and returns, and what any of the four mutating
  operations leaves behind, whether the call returned or raised.
\<close>

inductive reachable :: "catalog \<Rightarrow> tracker \<Rightarrow> bool" for cat :: catalog where
  r_empty: "reachable cat empty_tracker"
| r_seeded: "MetricsTracker cat metrics = (Inr (), tr) \<Longrightarrow> reachable cat tr"
| r_register: "reachable cat tr \<Longrightarrow> reachable cat (snd (register cat tr name direction))"
| r_register_metrics: "reachable cat tr \<Longrightarrow> reachable cat (snd (register_metrics cat tr metrics))"
| r_update: "reachable cat tr \<Longrightarrow> reachable cat (snd (update cat tr name val t))"
| r_set_history: "reachable cat tr \<Longrightarrow> reachable cat (snd (set_history cat tr name s))"

text \<open>The three attributes have the same keys.\<close>

definition in_sync :: "tracker \<Rightarrow> bool" where
  "in_sync tr = (fst ` set (directions tr) = set (names tr) \<and>
                 fst ` set (metrics_history tr) = set (names tr))"


section \<open>Shared lemmas\<close>

lemma infer_returns_direction:
  "infer_metric_direction cat m = Inr d \<Longrightarrow> d = ''min'' \<or> d = ''max''"
  by (cases m)
    (auto simp: Let_def direction_of_object_def direction_of_identity_def
      split: lookup.splits sum.splits if_splits)

lemma register_inferred:
  assumes "name \<notin> set (names tr)" and "infer_metric_direction cat (Name name) = Inr d"
  shows "register cat tr name None =
       (Inr (), tr\<lparr>names := names tr @ [name],
                   directions := AList.update name d (directions tr),
                   metrics_history := AList.update name [] (metrics_history tr)\<rparr>)"
proof -
  have "d = ''min'' \<or> d = ''max''" using assms(2) by (rule infer_returns_direction)
  then show ?thesis using assms by (auto simp: register_def)
qed

lemma register_inference_raises:
  "infer_metric_direction cat (Name name) = Inl e \<Longrightarrow> register cat tr name None = (Inl e, tr)"
  by (simp add: register_def)

lemma register_returns_registered:
  "fst (register cat tr name direction) = Inr () \<Longrightarrow>
   name \<in> set (names (snd (register cat tr name direction)))"
  by (auto simp: register_def split: sum.splits option.splits if_splits)

text \<open>The trackers used in the concrete evaluations, as the calls build them.\<close>

lemma first_update:
  "name \<notin> set (names tr) \<Longrightarrow> infer_metric_direction cat (Name name) = Inr d \<Longrightarrow>
   d = ''min'' \<or> d = ''max'' \<Longrightarrow>
   update cat tr name (Coercible v) t =
     (Inr (Some True),
      \<lparr>names = names tr @ [name],
       directions = AList.update name d (directions tr),
       metrics_history = AList.update name [MetricObservation v t] (metrics_history tr)\<rparr>)"
  by (auto simp: update_def float_py_def exists_def register_def get_history_def update_conv')

lemma infer_loss: "infer_metric_direction sample_catalog (Name ''loss'') = Inr ''min''"
  by (simp add: canonical_name_def)

lemma infer_acc: "infer_metric_direction sample_catalog (Name ''acc'') = Inr ''max''"
  by (simp add: canonical_name_def sample_catalog_def direction_of_object_def
      direction_of_identity_def MAX_METRIC_FNS_def)


lemma loss_nan_state:
  "snd (update sample_catalog empty_tracker ''loss'' (Coercible NaN) 0) =
     \<lparr>names = [''loss''], directions = [(''loss'', ''min'')],
      metrics_history = [(''loss'', [MetricObservation NaN 0])]\<rparr>"
  using first_update [of "''loss''" empty_tracker sample_catalog "''min''" NaN 0] infer_loss
  by (simp add: empty_tracker_def)

lemma loss_one_state:
  "snd (update sample_catalog empty_tracker ''loss'' (Coercible (Fin 1)) 0) =
     \<lparr>names = [''loss''], directions = [(''loss'', ''min'')],
      metrics_history = [(''loss'', [MetricObservation (Fin 1) 0])]\<rparr>"
  using first_update [of "''loss''" empty_tracker sample_catalog "''min''" "Fin 1" 0] infer_loss
  by (simp add: empty_tracker_def)

lemma acc_half_state:
  "snd (update sample_catalog empty_tracker ''acc'' (Coercible (Fin (1/2))) 0) =
     \<lparr>names = [''acc''], directions = [(''acc'', ''max'')],
      metrics_history = [(''acc'', [MetricObservation (Fin (1/2)) 0])]\<rparr>"
  using first_update [of "''acc''" empty_tracker sample_catalog "''max''" "Fin (1/2)" 0] infer_acc
  by (simp add: empty_tracker_def)

lemma loss_nan_one_state:
  "snd (update sample_catalog
         (snd (update sample_catalog empty_tracker ''loss'' (Coercible NaN) 0))
         ''loss'' (Coercible (Fin 1)) 1) =
     \<lparr>names = [''loss''], directions = [(''loss'', ''min'')],
      metrics_history = [(''loss'', [MetricObservation NaN 0, MetricObservation (Fin 1) 1])]\<rparr>"
  unfolding loss_nan_state
  by (simp add: update_def float_py_def exists_def get_history_def)

lemma loss_one_nan_state:
  "snd (update sample_catalog
         (snd (update sample_catalog empty_tracker ''loss'' (Coercible (Fin 1)) 0))
         ''loss'' (Coercible NaN) 1) =
     \<lparr>names = [''loss''], directions = [(''loss'', ''min'')],
      metrics_history = [(''loss'', [MetricObservation (Fin 1) 0, MetricObservation NaN 1])]\<rparr>"
  unfolding loss_one_state
  by (simp add: update_def float_py_def exists_def get_history_def)

section \<open>Registration\<close>



section \<open>Updates that cannot be recorded\<close>

text \<open>
  Claim C10. When \<^verbatim>\<open>float(value)\<close> refuses the value, \<open>update\<close> raises \<open>InvalidValue\<close> and
  the tracker is exactly as before: the name has not been registered and no observation has
  been appended, whatever the tracker, the name and the time index.
\<close>

theorem update_invalid_value:
  "update cat tr name NotCoercible t = (Inl InvalidValue, tr)"
  by (simp add: update_def float_py_def)

section \<open>Queries on an empty history, and the last value\<close>



section \<open>Export and import round trip\<close>

lemma make_observations_id:
  "list_all is_observation h \<Longrightarrow> make_observations h = Inr h"
proof (induction h)
  case Nil
  then show ?case by simp
next
  case (Cons obs h)
  then show ?case by (cases obs) simp_all
qed

lemma convert_items_id:
  "list_all (\<lambda>item. list_all is_observation (snd item)) items \<Longrightarrow> convert_items items = Inr items"
proof (induction items)
  case Nil
  then show ?case by simp
next
  case (Cons item items)
  then show ?case by (cases item) (simp add: make_observations_id)
qed

text \<open>
  Claim C3, as the code has it. For a tracker whose histories hold observations only, as
  the source documents them, importing the exported configuration succeeds and gives the
  tracker back: the same \<open>names\<close>, the same \<open>directions\<close>, and for every name the same
  observations, values and time indices, in the same order.
\<close>

theorem config_round_trip:
  "observations_only tr \<Longrightarrow> from_config (get_config tr) = Inr tr"
  by (simp add: from_config_def get_config_def observations_only_def convert_items_id)

text \<open>The tracker after two updates of \<^verbatim>\<open>loss\<close> survives the round trip.\<close>

theorem config_round_trip_witness:
  "from_config (get_config
     (snd (update sample_catalog
            (snd (update sample_catalog empty_tracker ''loss'' (Coercible NaN) 0))
            ''loss'' (Coercible (Fin 1)) 1)))
   = Inr (snd (update sample_catalog
            (snd (update sample_catalog empty_tracker ''loss'' (Coercible NaN) 0))
            ''loss'' (Coercible (Fin 1)) 1))"
proof -
  let ?tr = "snd (update sample_catalog
            (snd (update sample_catalog empty_tracker ''loss'' (Coercible NaN) 0))
            ''loss'' (Coercible (Fin 1)) 1)"
  have h: "observations_only ?tr"
    unfolding loss_nan_one_state by (simp add: observations_only_def)
  from config_round_trip [OF h] show ?thesis .
qed

text \<open>
  The claim as written holds of every tracker state. \<open>set_history\<close> accepts a list that
  holds an object which is no observation and cannot be unpacked into a value and a time
  index; the import of the exported configuration of that tracker raises \<^verbatim>\<open>TypeError\<close>
  and yields no tracker.
\<close>

theorem config_round_trip_raises:
  "fst (set_history sample_catalog empty_tracker ''loss'' (PyList [Opaque])) = Inr () \<and>
   from_config (get_config
     (snd (set_history sample_catalog empty_tracker ''loss'' (PyList [Opaque]))))
   = Inl TypeError"
  by (simp add: set_history_def exists_def empty_tracker_def register_def canonical_name_def
      from_config_def get_config_def)

section \<open>Replacing a history\<close>

text \<open>
  Claim C4, as the code has it. \<open>set_history\<close> raises \<open>InvalidHistory\<close>, leaving the tracker
  as it was, when \<^verbatim>\<open>series\<close> is not a list. When it is a list, whatever the list holds,
  the call succeeds for a known name and for an unknown name whose direction the inference
  returns: an unknown name is registered with the direction inferred from the name, a known
  name keeps its place and direction, the history of the name is the list, and the
  histories of the other names are untouched. When the inference raises for an unknown
  name, the call raises the same exception and the tracker is left as it was.
\<close>

theorem set_history_spec:
  "set_history cat tr name NotList = (Inl InvalidHistory, tr) \<and>
   (name \<in> set (names tr) \<or> infer_metric_direction cat (Name name) = Inr d \<longrightarrow>
      fst (set_history cat tr name (PyList entries)) = Inr () \<and>
      get_history (snd (set_history cat tr name (PyList entries))) name = Inr entries \<and>
      (\<forall>n. n \<noteq> name \<longrightarrow>
         map_of (metrics_history (snd (set_history cat tr name (PyList entries)))) n =
         map_of (metrics_history tr) n)) \<and>
   (name \<in> set (names tr) \<longrightarrow>
      names (snd (set_history cat tr name (PyList entries))) = names tr \<and>
      directions (snd (set_history cat tr name (PyList entries))) = directions tr) \<and>
   (name \<notin> set (names tr) \<and> infer_metric_direction cat (Name name) = Inr d \<longrightarrow>
      names (snd (set_history cat tr name (PyList entries))) = names tr @ [name] \<and>
      map_of (directions (snd (set_history cat tr name (PyList entries)))) =
        (map_of (directions tr))(name \<mapsto> d)) \<and>
   (name \<notin> set (names tr) \<and> infer_metric_direction cat (Name name) = Inl e \<longrightarrow>
      set_history cat tr name (PyList entries) = (Inl e, tr))"
proof (cases "name \<in> set (names tr)")
  case True
  then show ?thesis
    by (simp add: set_history_def exists_def get_history_def update_conv')
next
  case False
  show ?thesis
  proof (cases "infer_metric_direction cat (Name name)")
    case (Inl e')
    with False show ?thesis
      by (simp add: set_history_def exists_def register_inference_raises)
  next
    case (Inr d')
    from register_inferred [OF False Inr]
    have r: "register cat tr name None =
       (Inr (), tr\<lparr>names := names tr @ [name],
                   directions := AList.update name d' (directions tr),
                   metrics_history := AList.update name [] (metrics_history tr)\<rparr>)" .
    from False Inr r show ?thesis
      by (simp add: set_history_def exists_def get_history_def update_conv')
  qed
qed

text \<open>
  On the empty tracker: a payload that is no list is refused, and a list of one observation
  registers \<^verbatim>\<open>loss\<close> as a metric to minimize and becomes its history.
\<close>

theorem set_history_spec_witness:
  "set_history sample_catalog empty_tracker ''loss'' NotList = (Inl InvalidHistory, empty_tracker) \<and>
   get_history (snd (set_history sample_catalog empty_tracker ''loss''
       (PyList [MetricObservation (Fin 1) 0]))) ''loss'' = Inr [MetricObservation (Fin 1) 0] \<and>
   names (snd (set_history sample_catalog empty_tracker ''loss''
       (PyList [MetricObservation (Fin 1) 0]))) = [''loss''] \<and>
   map_of (directions (snd (set_history sample_catalog empty_tracker ''loss''
       (PyList [MetricObservation (Fin 1) 0])))) ''loss'' = Some ''min''"
proof -
  have h: "''loss'' \<notin> set (names empty_tracker) \<and>
      infer_metric_direction sample_catalog (Name ''loss'') = Inr ''min''"
    using infer_loss by (simp add: empty_tracker_def)
  from h set_history_spec [where cat = sample_catalog and tr = empty_tracker
      and name = "''loss''" and d = "''min''" and entries = "[MetricObservation (Fin 1) 0]"]
  show ?thesis by (auto simp: empty_tracker_def)
qed

text \<open>
  The claim as written says that a payload that is not a sequence of observations is
  rejected. A list holding an object that is no observation is accepted and stored.
\<close>

theorem set_history_unvalidated:
  "fst (set_history sample_catalog empty_tracker ''loss'' (PyList [Opaque])) = Inr () \<and>
   get_history (snd (set_history sample_catalog empty_tracker ''loss'' (PyList [Opaque]))) ''loss''
     = Inr [Opaque] \<and>
   is_observation Opaque = False"
  by (simp add: set_history_def exists_def empty_tracker_def register_def canonical_name_def
      get_history_def)

section \<open>Direction inference on names\<close>




section \<open>Order on floats, and the NaN-aware extrema\<close>

lemma fle_not_nan: "fle a b \<Longrightarrow> a \<noteq> NaN \<and> b \<noteq> NaN"
  by (cases a; cases b) simp_all

lemma fle_refl: "a \<noteq> NaN \<Longrightarrow> fle a a"
  by (cases a) simp_all

lemma fle_trans: "fle a b \<Longrightarrow> fle b c \<Longrightarrow> fle a c"
  by (cases a; cases b; cases c) simp_all

lemma fle_total: "a \<noteq> NaN \<Longrightarrow> b \<noteq> NaN \<Longrightarrow> fle a b \<or> fle b a"
  by (cases a; cases b) auto

lemma fle_NegInf: "fle NegInf v = (v \<noteq> NaN)"
  by simp

lemma fle_PosInf: "fle v PosInf = (v \<noteq> NaN)"
  by (cases v) simp_all

lemma amax_bound:
  "x \<noteq> NaN \<Longrightarrow> \<forall>y\<in>set rest. y \<noteq> NaN \<Longrightarrow>
   amax x rest \<in> set (x # rest) \<and> (\<forall>y\<in>set (x # rest). fle y (amax x rest))"
proof (induction rest arbitrary: x)
  case Nil
  then show ?case by (simp add: amax_def fle_refl)
next
  case (Cons z rest)
  let ?m = "if fle z x then x else z"
  have step: "amax x (z # rest) = amax ?m rest" by (simp add: amax_def)
  have m: "?m \<noteq> NaN" using Cons.prems by simp
  have ih: "amax ?m rest \<in> set (?m # rest) \<and> (\<forall>y\<in>set (?m # rest). fle y (amax ?m rest))"
    using Cons.IH [OF m] Cons.prems by simp
  have xz: "fle x ?m \<and> fle z ?m"
    using Cons.prems fle_total [of z x] by (auto simp: fle_refl)
  have top: "fle ?m (amax ?m rest)" using ih by simp
  from ih xz top show ?case
    unfolding step by (auto intro: fle_trans)
qed

lemma amin_bound:
  "x \<noteq> NaN \<Longrightarrow> \<forall>y\<in>set rest. y \<noteq> NaN \<Longrightarrow>
   amin x rest \<in> set (x # rest) \<and> (\<forall>y\<in>set (x # rest). fle (amin x rest) y)"
proof (induction rest arbitrary: x)
  case Nil
  then show ?case by (simp add: amin_def fle_refl)
next
  case (Cons z rest)
  let ?m = "if fle x z then x else z"
  have step: "amin x (z # rest) = amin ?m rest" by (simp add: amin_def)
  have m: "?m \<noteq> NaN" using Cons.prems by simp
  have ih: "amin ?m rest \<in> set (?m # rest) \<and> (\<forall>y\<in>set (?m # rest). fle (amin ?m rest) y)"
    using Cons.IH [OF m] Cons.prems by simp
  have xz: "fle ?m x \<and> fle ?m z"
    using Cons.prems fle_total [of x z] by (auto simp: fle_refl)
  have top: "fle (amin ?m rest) ?m" using ih by simp
  from ih xz top show ?case
    unfolding step by (auto intro: fle_trans)
qed

lemma nanmax_all_nan: "list_all (\<lambda>x. x = NaN) hv \<Longrightarrow> nanmax hv = NaN"
  by (simp add: nanmax_def)

lemma nanmax_some:
  assumes "\<exists>x\<in>set hv. x \<noteq> NaN"
  shows "nanmax hv \<in> insert NegInf {x \<in> set hv. x \<noteq> NaN} \<and>
         (\<forall>x\<in>set hv. x \<noteq> NaN \<longrightarrow> fle x (nanmax hv))"
proof -
  from assms have ne: "\<not> list_all (\<lambda>x. x = NaN) hv" by (auto simp: list_all_iff)
  from assms obtain y ys where r: "replace_nan NegInf hv = y # ys"
    by (cases hv) (auto simp: replace_nan_def)
  have nn: "\<forall>z\<in>set (y # ys). z \<noteq> NaN"
    unfolding r [symmetric] by (auto simp: replace_nan_def)
  have sub: "set (y # ys) \<subseteq> insert NegInf {x \<in> set hv. x \<noteq> NaN}"
    unfolding r [symmetric] by (auto simp: replace_nan_def)
  have sup: "{x \<in> set hv. x \<noteq> NaN} \<subseteq> set (y # ys)"
    unfolding r [symmetric] by (auto simp: replace_nan_def)
  have v: "nanmax hv = amax y ys" using ne r by (simp add: nanmax_def)
  from nn have b: "amax y ys \<in> set (y # ys) \<and> (\<forall>z\<in>set (y # ys). fle z (amax y ys))"
    by (intro amax_bound) auto
  from b sub sup show ?thesis unfolding v by blast
qed

lemma nanmin_some:
  assumes "\<exists>x\<in>set hv. x \<noteq> NaN"
  shows "nanmin hv \<in> insert PosInf {x \<in> set hv. x \<noteq> NaN} \<and>
         (\<forall>x\<in>set hv. x \<noteq> NaN \<longrightarrow> fle (nanmin hv) x)"
proof -
  from assms have ne: "\<not> list_all (\<lambda>x. x = NaN) hv" by (auto simp: list_all_iff)
  from assms obtain y ys where r: "replace_nan PosInf hv = y # ys"
    by (cases hv) (auto simp: replace_nan_def)
  have nn: "\<forall>z\<in>set (y # ys). z \<noteq> NaN"
    unfolding r [symmetric] by (auto simp: replace_nan_def)
  have sub: "set (y # ys) \<subseteq> insert PosInf {x \<in> set hv. x \<noteq> NaN}"
    unfolding r [symmetric] by (auto simp: replace_nan_def)
  have sup: "{x \<in> set hv. x \<noteq> NaN} \<subseteq> set (y # ys)"
    unfolding r [symmetric] by (auto simp: replace_nan_def)
  have v: "nanmin hv = amin y ys" using ne r by (simp add: nanmin_def)
  from nn have b: "amin y ys \<in> set (y # ys) \<and> (\<forall>z\<in>set (y # ys). fle (amin y ys) z)"
    by (intro amin_bound) auto
  from b sub sup show ?thesis unfolding v by blast
qed

lemma fge_nanmax_iff:
  "fge v (nanmax hv) \<longleftrightarrow>
     (\<exists>x\<in>set hv. x \<noteq> NaN) \<and> (\<forall>x\<in>set hv. x \<noteq> NaN \<longrightarrow> fge v x)"
proof (cases "\<exists>x\<in>set hv. x \<noteq> NaN")
  case False
  then have "list_all (\<lambda>x. x = NaN) hv" by (auto simp: list_all_iff)
  then have "nanmax hv = NaN" by (rule nanmax_all_nan)
  with False show ?thesis by (simp add: fge_def)
next
  case True
  note s = nanmax_some [OF True]
  show ?thesis
  proof
    assume "fge v (nanmax hv)"
    then have le: "fle (nanmax hv) v" by (simp add: fge_def)
    with s have "\<forall>x\<in>set hv. x \<noteq> NaN \<longrightarrow> fle x v" by (blast intro: fle_trans)
    with True show "(\<exists>x\<in>set hv. x \<noteq> NaN) \<and> (\<forall>x\<in>set hv. x \<noteq> NaN \<longrightarrow> fge v x)"
      by (simp add: fge_def)
  next
    assume a: "(\<exists>x\<in>set hv. x \<noteq> NaN) \<and> (\<forall>x\<in>set hv. x \<noteq> NaN \<longrightarrow> fge v x)"
    then obtain x0 where "x0 \<in> set hv" "x0 \<noteq> NaN" "fle x0 v" by (auto simp: fge_def)
    then have vn: "v \<noteq> NaN" using fle_not_nan by blast
    from s have "nanmax hv = NegInf \<or> (nanmax hv \<in> set hv \<and> nanmax hv \<noteq> NaN)" by blast
    then show "fge v (nanmax hv)"
    proof
      assume "nanmax hv = NegInf"
      with vn show ?thesis by (simp add: fge_def)
    next
      assume "nanmax hv \<in> set hv \<and> nanmax hv \<noteq> NaN"
      with a show ?thesis by blast
    qed
  qed
qed

lemma fle_nanmin_iff:
  "fle v (nanmin hv) \<longleftrightarrow>
     (\<exists>x\<in>set hv. x \<noteq> NaN) \<and> (\<forall>x\<in>set hv. x \<noteq> NaN \<longrightarrow> fle v x)"
proof (cases "\<exists>x\<in>set hv. x \<noteq> NaN")
  case False
  then have "list_all (\<lambda>x. x = NaN) hv" by (auto simp: list_all_iff)
  then have "nanmin hv = NaN" by (simp add: nanmin_def)
  with False show ?thesis by (cases v) simp_all
next
  case True
  note s = nanmin_some [OF True]
  show ?thesis
  proof
    assume le: "fle v (nanmin hv)"
    with s have "\<forall>x\<in>set hv. x \<noteq> NaN \<longrightarrow> fle v x" by (blast intro: fle_trans)
    with True show "(\<exists>x\<in>set hv. x \<noteq> NaN) \<and> (\<forall>x\<in>set hv. x \<noteq> NaN \<longrightarrow> fle v x)"
      by simp
  next
    assume a: "(\<exists>x\<in>set hv. x \<noteq> NaN) \<and> (\<forall>x\<in>set hv. x \<noteq> NaN \<longrightarrow> fle v x)"
    then obtain x0 where "x0 \<in> set hv" "x0 \<noteq> NaN" "fle v x0" by auto
    then have vn: "v \<noteq> NaN" using fle_not_nan by blast
    from s have "nanmin hv = PosInf \<or> (nanmin hv \<in> set hv \<and> nanmin hv \<noteq> NaN)" by blast
    then show "fle v (nanmin hv)"
    proof
      assume "nanmin hv = PosInf"
      with vn show ?thesis by (simp add: fle_PosInf)
    next
      assume "nanmin hv \<in> set hv \<and> nanmin hv \<noteq> NaN"
      with a show ?thesis by blast
    qed
  qed
qed

section \<open>Recording an observation\<close>

text \<open>
  What \<open>update\<close> does with a value that \<^verbatim>\<open>float\<close> accepts as \<open>v\<close>. For an unregistered
  name whose direction the inference returns, it returns \<^verbatim>\<open>True\<close> and the history of the
  name is the single observation \<open>(v, t)\<close>; when the inference raises, the call raises the
  same exception and the tracker is left as it was. For a registered name with direction
  \<^verbatim>\<open>'max'\<close> or \<^verbatim>\<open>'min'\<close> whose history \<open>h\<close> holds observations with values \<open>hv\<close>, the
  observation is appended to \<open>h\<close>, and the call returns \<^verbatim>\<open>True\<close> exactly when \<open>hv\<close> is
  empty, or some prior value is not NaN and \<open>v\<close> is at least as extreme (\<open>>=\<close> for
  \<^verbatim>\<open>'max'\<close>, \<open><=\<close> for \<^verbatim>\<open>'min'\<close>) as every prior value that is not NaN.
\<close>

lemma update_returns:
  "(name \<notin> set (names tr) \<and> infer_metric_direction cat (Name name) = Inr d0 \<longrightarrow>
      fst (update cat tr name (Coercible v) t) = Inr (Some True) \<and>
      get_history (snd (update cat tr name (Coercible v) t)) name = Inr [MetricObservation v t]) \<and>
   (name \<notin> set (names tr) \<and> infer_metric_direction cat (Name name) = Inl e \<longrightarrow>
      update cat tr name (Coercible v) t = (Inl e, tr)) \<and>
   (get_history tr name = Inr h \<and> history_values h = Inr hv \<and>
    map_of (directions tr) name = Some d \<and> (d = ''max'' \<or> d = ''min'') \<longrightarrow>
      get_history (snd (update cat tr name (Coercible v) t)) name
        = Inr (h @ [MetricObservation v t]) \<and>
      fst (update cat tr name (Coercible v) t) =
        Inr (Some (hv = [] \<or>
          ((\<exists>x\<in>set hv. x \<noteq> NaN) \<and>
           (\<forall>x\<in>set hv. x \<noteq> NaN \<longrightarrow> (if d = ''max'' then fge v x else fle v x))))))"
proof -
  have a: "name \<notin> set (names tr) \<and> infer_metric_direction cat (Name name) = Inr d0 \<longrightarrow>
      fst (update cat tr name (Coercible v) t) = Inr (Some True) \<and>
      get_history (snd (update cat tr name (Coercible v) t)) name = Inr [MetricObservation v t]"
  proof
    assume p: "name \<notin> set (names tr) \<and> infer_metric_direction cat (Name name) = Inr d0"
    then have n: "name \<notin> set (names tr)" by simp
    from p have r: "register cat tr name None =
       (Inr (), tr\<lparr>names := names tr @ [name],
                   directions := AList.update name d0 (directions tr),
                   metrics_history := AList.update name [] (metrics_history tr)\<rparr>)"
      by (simp add: register_inferred)
    from n r show "fst (update cat tr name (Coercible v) t) = Inr (Some True) \<and>
      get_history (snd (update cat tr name (Coercible v) t)) name = Inr [MetricObservation v t]"
      by (simp add: update_def float_py_def exists_def get_history_def update_conv')
  qed
  have c: "name \<notin> set (names tr) \<and> infer_metric_direction cat (Name name) = Inl e \<longrightarrow>
      update cat tr name (Coercible v) t = (Inl e, tr)"
    by (simp add: update_def float_py_def exists_def register_inference_raises)
  have b: "get_history tr name = Inr h \<and> history_values h = Inr hv \<and>
    map_of (directions tr) name = Some d \<and> (d = ''max'' \<or> d = ''min'') \<longrightarrow>
      get_history (snd (update cat tr name (Coercible v) t)) name
        = Inr (h @ [MetricObservation v t]) \<and>
      fst (update cat tr name (Coercible v) t) =
        Inr (Some (hv = [] \<or>
          ((\<exists>x\<in>set hv. x \<noteq> NaN) \<and>
           (\<forall>x\<in>set hv. x \<noteq> NaN \<longrightarrow> (if d = ''max'' then fge v x else fle v x)))))"
  proof
    assume p: "get_history tr name = Inr h \<and> history_values h = Inr hv \<and>
      map_of (directions tr) name = Some d \<and> (d = ''max'' \<or> d = ''min'')"
    then have reg: "name \<in> set (names tr)"
      by (auto simp: get_history_def split: if_splits)
    from p reg have hist: "get_history (snd (update cat tr name (Coercible v) t)) name
        = Inr (h @ [MetricObservation v t])"
      by (auto simp: update_def float_py_def exists_def Let_def get_history_def update_conv'
          split: option.splits)
    from p reg have res: "fst (update cat tr name (Coercible v) t) =
        Inr (Some (hv = [] \<or> (if d = ''max'' then fge v (nanmax hv) else fle v (nanmin hv))))"
      by (auto simp: update_def float_py_def exists_def Let_def)
    show "get_history (snd (update cat tr name (Coercible v) t)) name
        = Inr (h @ [MetricObservation v t]) \<and>
      fst (update cat tr name (Coercible v) t) =
        Inr (Some (hv = [] \<or>
          ((\<exists>x\<in>set hv. x \<noteq> NaN) \<and>
           (\<forall>x\<in>set hv. x \<noteq> NaN \<longrightarrow> (if d = ''max'' then fge v x else fle v x)))))"
      using hist res by (simp add: fge_nanmax_iff fle_nanmin_iff)
  qed
  from a b c show ?thesis by blast
qed

text \<open>
  Claim C1 asks that \<open>update\<close> returns \<^verbatim>\<open>True\<close> when every prior value is NaN. The code
  says it returns whether the value is the best yet seen, ignores NaN when it takes the
  prior extremum, and returns \<^verbatim>\<open>True\<close> when there is no prior value; but after the single
  observation \<open>(NaN, 0)\<close> of \<^verbatim>\<open>loss\<close>, the update with \<open>1.0\<close> returns \<^verbatim>\<open>False\<close>:
  \<^verbatim>\<open>nanmin\<close> of the prior values is NaN, and \<^verbatim>\<open>1.0 <= NaN\<close> is false.
\<close>

theorem update_all_nan_prior:
  "get_history (snd (update sample_catalog empty_tracker ''loss'' (Coercible NaN) 0)) ''loss''
     = Inr [MetricObservation NaN 0] \<and>
   fst (update sample_catalog
         (snd (update sample_catalog empty_tracker ''loss'' (Coercible NaN) 0))
         ''loss'' (Coercible (Fin 1)) 1) = Inr (Some False)"
  unfolding loss_nan_state
  by (simp add: update_def float_py_def exists_def get_history_def nanmin_def)

section \<open>The key sets stay in sync\<close>

lemma register_in_sync: "in_sync tr \<Longrightarrow> in_sync (snd (register cat tr name direction))"
  by (auto simp: register_def in_sync_def dom_update split: sum.splits option.splits)

lemma register_metrics_in_sync:
  "in_sync tr \<Longrightarrow> in_sync (snd (register_metrics cat tr metrics))"
proof (induction metrics arbitrary: tr)
  case Nil
  then show ?case by simp
next
  case (Cons m ms)
  show ?case
  proof (cases "infer_metric_direction cat m")
    case (Inl e)
    with Cons.prems show ?thesis by simp
  next
    case (Inr direction)
    show ?thesis
    proof (cases "attr_name m")
      case (Inl e)
      with Inr Cons.prems show ?thesis by simp
    next
      case nm: (Inr nm)
      obtain r tr' where reg: "register cat tr nm (Some direction) = (r, tr')"
        by (cases "register cat tr nm (Some direction)")
      have s: "in_sync tr'"
        using register_in_sync [OF Cons.prems, of cat nm "Some direction"] reg by simp
      show ?thesis
      proof (cases r)
        case (Inl e)
        with Inr nm reg s show ?thesis by simp
      next
        case u: (Inr u)
        with Inr nm reg Cons.IH [OF s] show ?thesis by simp
      qed
    qed
  qed
qed

lemma update_in_sync: "in_sync tr \<Longrightarrow> in_sync (snd (update cat tr name val t))"
proof -
  assume s: "in_sync tr"
  show ?thesis
  proof (cases "float_py val")
    case (Inl e)
    with s show ?thesis by (simp add: update_def)
  next
    case (Inr v)
    define o1 where "o1 = (if \<not> exists tr name then register cat tr name None else (Inr (), tr))"
    obtain r tr1 where o: "o1 = (r, tr1)" by (cases o1)
    have s1: "in_sync tr1"
      using s register_in_sync [OF s, of cat name None] o
      by (auto simp: o1_def split: if_splits)
    have reg: "r = Inr () \<Longrightarrow> name \<in> set (names tr1)"
      using o register_returns_registered [of cat tr name None]
      by (auto simp: o1_def exists_def split: if_splits)
    show ?thesis
    proof (cases r)
      case (Inl e)
      with Inr o s1 show ?thesis by (simp add: update_def o1_def [symmetric])
    next
      case u: (Inr u)
      then have n: "name \<in> set (names tr1)" using reg by simp
      have k: "in_sync (tr1\<lparr>metrics_history := AList.update name hs (metrics_history tr1)\<rparr>)" for hs
        using s1 n by (auto simp: in_sync_def dom_update)
      from Inr o u s1 k show ?thesis
        by (auto simp: update_def o1_def [symmetric] Let_def split: sum.splits option.splits)
    qed
  qed
qed

lemma set_history_in_sync: "in_sync tr \<Longrightarrow> in_sync (snd (set_history cat tr name s))"
proof -
  assume s0: "in_sync tr"
  show ?thesis
  proof (cases s)
    case NotList
    with s0 show ?thesis by (simp add: set_history_def)
  next
    case (PyList entries)
    define o1 where "o1 = (if \<not> exists tr name then register cat tr name None else (Inr (), tr))"
    obtain r tr1 where o: "o1 = (r, tr1)" by (cases o1)
    have s1: "in_sync tr1"
      using s0 register_in_sync [OF s0, of cat name None] o
      by (auto simp: o1_def split: if_splits)
    have reg: "r = Inr () \<Longrightarrow> name \<in> set (names tr1)"
      using o register_returns_registered [of cat tr name None]
      by (auto simp: o1_def exists_def split: if_splits)
    show ?thesis
    proof (cases r)
      case (Inl e)
      with PyList o s1 show ?thesis by (simp add: set_history_def o1_def [symmetric])
    next
      case u: (Inr u)
      then have n: "name \<in> set (names tr1)" using reg by simp
      have k: "in_sync (tr1\<lparr>metrics_history := AList.update name entries (metrics_history tr1)\<rparr>)"
        using s1 n by (auto simp: in_sync_def dom_update)
      from PyList o u k show ?thesis
        by (simp add: set_history_def o1_def [symmetric])
    qed
  qed
qed

text \<open>
  Claim C8. In every tracker reachable from the empty or a seeded one by \<open>register\<close>,
  \<open>register_metrics\<close>, \<open>update\<close> and \<open>set_history\<close>, failed calls included, the names, the
  keys of \<open>directions\<close> and the keys of \<open>metrics_history\<close> are the same set.
\<close>

theorem key_sets_in_sync:
  "reachable cat tr \<Longrightarrow>
     set (names tr) = fst ` set (directions tr) \<and>
     set (names tr) = fst ` set (metrics_history tr)"
proof -
  assume "reachable cat tr"
  then have "in_sync tr"
  proof (induction rule: reachable.induct)
    case r_empty
    show ?case by (simp add: in_sync_def empty_tracker_def)
  next
    case (r_seeded metrics tr)
    have "in_sync empty_tracker" by (simp add: in_sync_def empty_tracker_def)
    then have "in_sync (snd (register_metrics cat empty_tracker metrics))"
      by (rule register_metrics_in_sync)
    with r_seeded show ?case by (simp add: MetricsTracker_def)
  next
    case (r_register tr name direction)
    then show ?case by (simp add: register_in_sync)
  next
    case (r_register_metrics tr metrics)
    then show ?case by (simp add: register_metrics_in_sync)
  next
    case (r_update tr name val t)
    then show ?case by (simp add: update_in_sync)
  next
    case (r_set_history tr name s)
    then show ?case by (simp add: set_history_in_sync)
  qed
  then show ?thesis by (simp add: in_sync_def)
qed

text \<open>
  A failed \<open>set_history\<close> after an update: the tracker is reachable, holds the one name
  \<^verbatim>\<open>acc\<close>, and its three key sets agree.
\<close>

theorem key_sets_in_sync_witness:
  "set (names (snd (set_history sample_catalog
          (snd (update sample_catalog empty_tracker ''acc'' (Coercible (Fin (1/2))) 0))
          ''loss'' NotList)))
     = fst ` set (directions (snd (set_history sample_catalog
          (snd (update sample_catalog empty_tracker ''acc'' (Coercible (Fin (1/2))) 0))
          ''loss'' NotList))) \<and>
   set (names (snd (set_history sample_catalog
          (snd (update sample_catalog empty_tracker ''acc'' (Coercible (Fin (1/2))) 0))
          ''loss'' NotList)))
     = fst ` set (metrics_history (snd (set_history sample_catalog
          (snd (update sample_catalog empty_tracker ''acc'' (Coercible (Fin (1/2))) 0))
          ''loss'' NotList))) \<and>
   names (snd (set_history sample_catalog
          (snd (update sample_catalog empty_tracker ''acc'' (Coercible (Fin (1/2))) 0))
          ''loss'' NotList)) = [''acc'']"
proof -
  let ?t1 = "snd (update sample_catalog empty_tracker ''acc'' (Coercible (Fin (1/2))) 0)"
  let ?t2 = "snd (set_history sample_catalog ?t1 ''loss'' NotList)"
  have r1: "reachable sample_catalog ?t1" by (rule r_update) (rule r_empty)
  have r2: "reachable sample_catalog ?t2" using r1 by (rule r_set_history)
  have n: "names ?t2 = [''acc'']"
    unfolding acc_half_state by (simp add: set_history_def)
  from key_sets_in_sync [OF r2] n show ?thesis by blast
qed

section \<open>Best value and best time index on a history without NaN\<close>

text \<open>
  When no recorded value is NaN, the builtins \<^verbatim>\<open>min\<close> and \<^verbatim>\<open>max\<close> return the least and
  the greatest value, and \<^verbatim>\<open>argmin\<close> and \<^verbatim>\<open>argmax\<close> return the first index at which it
  stands: an index in range, so that \<^verbatim>\<open>history[t_index]\<close> is an entry of the history.
\<close>

lemma fle_antisym: "fle a b \<Longrightarrow> fle b a \<Longrightarrow> a = b"
  by (cases a; cases b) simp_all

lemma py_min_loop_bound:
  "x \<noteq> NaN \<Longrightarrow> \<forall>y\<in>set rest. y \<noteq> NaN \<Longrightarrow>
   foldl (\<lambda>m y. if flt y m then y else m) x rest \<in> set (x # rest) \<and>
   (\<forall>y\<in>set (x # rest). fle (foldl (\<lambda>m y. if flt y m then y else m) x rest) y)"
proof (induction rest arbitrary: x)
  case Nil
  then show ?case by (simp add: fle_refl)
next
  case (Cons z rest)
  let ?f = "\<lambda>m y. if flt y m then y else m"
  let ?m = "if flt z x then z else x"
  have m: "?m \<noteq> NaN" using Cons.prems by simp
  have ih: "foldl ?f ?m rest \<in> set (?m # rest) \<and> (\<forall>y\<in>set (?m # rest). fle (foldl ?f ?m rest) y)"
    using Cons.IH [OF m] Cons.prems by simp
  have xz: "fle ?m x \<and> fle ?m z"
    using Cons.prems fle_total [of x z] by (auto simp: fle_refl flt_def)
  have top: "fle (foldl ?f ?m rest) ?m" using ih by simp
  have step: "foldl ?f x (z # rest) = foldl ?f ?m rest" by simp
  from ih xz top show ?case
    unfolding step by (auto intro: fle_trans)
qed

lemma py_max_loop_bound:
  "x \<noteq> NaN \<Longrightarrow> \<forall>y\<in>set rest. y \<noteq> NaN \<Longrightarrow>
   foldl (\<lambda>m y. if fgt y m then y else m) x rest \<in> set (x # rest) \<and>
   (\<forall>y\<in>set (x # rest). fle y (foldl (\<lambda>m y. if fgt y m then y else m) x rest))"
proof (induction rest arbitrary: x)
  case Nil
  then show ?case by (simp add: fle_refl)
next
  case (Cons z rest)
  let ?f = "\<lambda>m y. if fgt y m then y else m"
  let ?m = "if fgt z x then z else x"
  have m: "?m \<noteq> NaN" using Cons.prems by simp
  have ih: "foldl ?f ?m rest \<in> set (?m # rest) \<and> (\<forall>y\<in>set (?m # rest). fle y (foldl ?f ?m rest))"
    using Cons.IH [OF m] Cons.prems by simp
  have xz: "fle x ?m \<and> fle z ?m"
    using Cons.prems fle_total [of x z] by (auto simp: fle_refl flt_def fgt_def)
  have top: "fle ?m (foldl ?f ?m rest)" using ih by simp
  have step: "foldl ?f x (z # rest) = foldl ?f ?m rest" by simp
  from ih xz top show ?case
    unfolding step by (auto intro: fle_trans)
qed

lemma argmin_loop_spec:
  "length pre = i \<Longrightarrow> mi < i \<Longrightarrow> pre ! mi = mp \<Longrightarrow>
   \<forall>y\<in>set (pre @ xs). y \<noteq> NaN \<Longrightarrow> \<forall>y\<in>set pre. fle mp y \<Longrightarrow>
   \<forall>j<mi. pre ! j \<noteq> mp \<Longrightarrow>
   argmin_loop mp mi i xs < length (pre @ xs) \<and>
   (\<forall>y\<in>set (pre @ xs). fle ((pre @ xs) ! argmin_loop mp mi i xs) y) \<and>
   (\<forall>j<argmin_loop mp mi i xs. (pre @ xs) ! j \<noteq> (pre @ xs) ! argmin_loop mp mi i xs)"
proof (induction xs arbitrary: pre i mi mp)
  case Nil
  then show ?case by simp
next
  case (Cons x xs)
  have xn: "x \<noteq> NaN" and mpn: "mp \<noteq> NaN" using Cons.prems by auto
  have app: "pre @ x # xs = (pre @ [x]) @ xs" by simp
  show ?case
  proof (cases "fge x mp")
    case True
    then have le: "fle mp x" by (simp add: fge_def)
    have step: "argmin_loop mp mi i (x # xs) = argmin_loop mp mi (Suc i) xs"
      using True by simp
    have "argmin_loop mp mi (Suc i) xs < length ((pre @ [x]) @ xs) \<and>
      (\<forall>y\<in>set ((pre @ [x]) @ xs). fle (((pre @ [x]) @ xs) ! argmin_loop mp mi (Suc i) xs) y) \<and>
      (\<forall>j<argmin_loop mp mi (Suc i) xs.
          ((pre @ [x]) @ xs) ! j \<noteq> ((pre @ [x]) @ xs) ! argmin_loop mp mi (Suc i) xs)"
    proof (rule Cons.IH)
      show "length (pre @ [x]) = Suc i" using Cons.prems by simp
      show "mi < Suc i" using Cons.prems by simp
      show "(pre @ [x]) ! mi = mp" using Cons.prems by (simp add: nth_append)
      show "\<forall>y\<in>set ((pre @ [x]) @ xs). y \<noteq> NaN" using Cons.prems by simp
      show "\<forall>y\<in>set (pre @ [x]). fle mp y" using Cons.prems le by simp
      show "\<forall>j<mi. (pre @ [x]) ! j \<noteq> mp" using Cons.prems by (simp add: nth_append)
    qed
    then show ?thesis unfolding step app .
  next
    case False
    then have nle: "\<not> fle mp x" by (simp add: fge_def)
    then have lt: "fle x mp" using fle_total [OF xn mpn] by blast
    have step: "argmin_loop mp mi i (x # xs) = argmin_loop x i (Suc i) xs"
      using False xn by simp
    have "argmin_loop x i (Suc i) xs < length ((pre @ [x]) @ xs) \<and>
      (\<forall>y\<in>set ((pre @ [x]) @ xs). fle (((pre @ [x]) @ xs) ! argmin_loop x i (Suc i) xs) y) \<and>
      (\<forall>j<argmin_loop x i (Suc i) xs.
          ((pre @ [x]) @ xs) ! j \<noteq> ((pre @ [x]) @ xs) ! argmin_loop x i (Suc i) xs)"
    proof (rule Cons.IH)
      show "length (pre @ [x]) = Suc i" using Cons.prems by simp
      show "i < Suc i" by simp
      show "(pre @ [x]) ! i = x" using Cons.prems by (simp add: nth_append)
      show "\<forall>y\<in>set ((pre @ [x]) @ xs). y \<noteq> NaN" using Cons.prems by simp
      show "\<forall>y\<in>set (pre @ [x]). fle x y"
        using Cons.prems lt xn by (auto intro: fle_trans simp: fle_refl)
      show "\<forall>j<i. (pre @ [x]) ! j \<noteq> x"
      proof (intro allI impI)
        fix j assume j: "j < i"
        then have "pre ! j \<in> set pre" using Cons.prems by simp
        then have "fle mp (pre ! j)" using Cons.prems by blast
        with nle have "pre ! j \<noteq> x" by auto
        with j Cons.prems show "(pre @ [x]) ! j \<noteq> x" by (simp add: nth_append)
      qed
    qed
    then show ?thesis unfolding step app .
  qed
qed

lemma argmax_loop_spec:
  "length pre = i \<Longrightarrow> mi < i \<Longrightarrow> pre ! mi = mp \<Longrightarrow>
   \<forall>y\<in>set (pre @ xs). y \<noteq> NaN \<Longrightarrow> \<forall>y\<in>set pre. fle y mp \<Longrightarrow>
   \<forall>j<mi. pre ! j \<noteq> mp \<Longrightarrow>
   argmax_loop mp mi i xs < length (pre @ xs) \<and>
   (\<forall>y\<in>set (pre @ xs). fle y ((pre @ xs) ! argmax_loop mp mi i xs)) \<and>
   (\<forall>j<argmax_loop mp mi i xs. (pre @ xs) ! j \<noteq> (pre @ xs) ! argmax_loop mp mi i xs)"
proof (induction xs arbitrary: pre i mi mp)
  case Nil
  then show ?case by simp
next
  case (Cons x xs)
  have xn: "x \<noteq> NaN" and mpn: "mp \<noteq> NaN" using Cons.prems by auto
  have app: "pre @ x # xs = (pre @ [x]) @ xs" by simp
  show ?case
  proof (cases "fle x mp")
    case True
    have step: "argmax_loop mp mi i (x # xs) = argmax_loop mp mi (Suc i) xs"
      using True by simp
    have "argmax_loop mp mi (Suc i) xs < length ((pre @ [x]) @ xs) \<and>
      (\<forall>y\<in>set ((pre @ [x]) @ xs). fle y (((pre @ [x]) @ xs) ! argmax_loop mp mi (Suc i) xs)) \<and>
      (\<forall>j<argmax_loop mp mi (Suc i) xs.
          ((pre @ [x]) @ xs) ! j \<noteq> ((pre @ [x]) @ xs) ! argmax_loop mp mi (Suc i) xs)"
    proof (rule Cons.IH)
      show "length (pre @ [x]) = Suc i" using Cons.prems by simp
      show "mi < Suc i" using Cons.prems by simp
      show "(pre @ [x]) ! mi = mp" using Cons.prems by (simp add: nth_append)
      show "\<forall>y\<in>set ((pre @ [x]) @ xs). y \<noteq> NaN" using Cons.prems by simp
      show "\<forall>y\<in>set (pre @ [x]). fle y mp" using Cons.prems True by simp
      show "\<forall>j<mi. (pre @ [x]) ! j \<noteq> mp" using Cons.prems by (simp add: nth_append)
    qed
    then show ?thesis unfolding step app .
  next
    case False
    then have gt: "fle mp x" using fle_total [OF xn mpn] by blast
    have step: "argmax_loop mp mi i (x # xs) = argmax_loop x i (Suc i) xs"
      using False xn by simp
    have "argmax_loop x i (Suc i) xs < length ((pre @ [x]) @ xs) \<and>
      (\<forall>y\<in>set ((pre @ [x]) @ xs). fle y (((pre @ [x]) @ xs) ! argmax_loop x i (Suc i) xs)) \<and>
      (\<forall>j<argmax_loop x i (Suc i) xs.
          ((pre @ [x]) @ xs) ! j \<noteq> ((pre @ [x]) @ xs) ! argmax_loop x i (Suc i) xs)"
    proof (rule Cons.IH)
      show "length (pre @ [x]) = Suc i" using Cons.prems by simp
      show "i < Suc i" by simp
      show "(pre @ [x]) ! i = x" using Cons.prems by (simp add: nth_append)
      show "\<forall>y\<in>set ((pre @ [x]) @ xs). y \<noteq> NaN" using Cons.prems by simp
      show "\<forall>y\<in>set (pre @ [x]). fle y x"
        using Cons.prems gt xn by (auto intro: fle_trans simp: fle_refl)
      show "\<forall>j<i. (pre @ [x]) ! j \<noteq> x"
      proof (intro allI impI)
        fix j assume j: "j < i"
        then have "pre ! j \<in> set pre" using Cons.prems by simp
        then have "fle (pre ! j) mp" using Cons.prems by blast
        with False have "pre ! j \<noteq> x" by auto
        with j Cons.prems show "(pre @ [x]) ! j \<noteq> x" by (simp add: nth_append)
      qed
    qed
    then show ?thesis unfolding step app .
  qed
qed

lemma np_argmin_no_nan:
  assumes "xs \<noteq> []" "\<forall>y\<in>set xs. y \<noteq> NaN"
  shows "np_argmin xs < length xs \<and> (\<forall>y\<in>set xs. fle (xs ! np_argmin xs) y) \<and>
         (\<forall>j<np_argmin xs. xs ! j \<noteq> xs ! np_argmin xs)"
proof -
  from assms obtain x rest where xs: "xs = x # rest" by (cases xs) auto
  have v: "np_argmin (x # rest) = argmin_loop x 0 1 rest" using xs assms by (simp add: np_argmin_def)
  have "argmin_loop x 0 1 rest < length ([x] @ rest) \<and>
     (\<forall>y\<in>set ([x] @ rest). fle (([x] @ rest) ! argmin_loop x 0 1 rest) y) \<and>
     (\<forall>j<argmin_loop x 0 1 rest. ([x] @ rest) ! j \<noteq> ([x] @ rest) ! argmin_loop x 0 1 rest)"
    using assms xs by (intro argmin_loop_spec) (auto simp: fle_refl)
  then show ?thesis unfolding xs v append_Cons append_Nil by blast
qed

lemma np_argmax_no_nan:
  assumes "xs \<noteq> []" "\<forall>y\<in>set xs. y \<noteq> NaN"
  shows "np_argmax xs < length xs \<and> (\<forall>y\<in>set xs. fle y (xs ! np_argmax xs)) \<and>
         (\<forall>j<np_argmax xs. xs ! j \<noteq> xs ! np_argmax xs)"
proof -
  from assms obtain x rest where xs: "xs = x # rest" by (cases xs) auto
  have v: "np_argmax (x # rest) = argmax_loop x 0 1 rest" using xs assms by (simp add: np_argmax_def)
  have "argmax_loop x 0 1 rest < length ([x] @ rest) \<and>
     (\<forall>y\<in>set ([x] @ rest). fle y (([x] @ rest) ! argmax_loop x 0 1 rest)) \<and>
     (\<forall>j<argmax_loop x 0 1 rest. ([x] @ rest) ! j \<noteq> ([x] @ rest) ! argmax_loop x 0 1 rest)"
    using assms xs by (intro argmax_loop_spec) (auto simp: fle_refl)
  then show ?thesis unfolding xs v append_Cons append_Nil by blast
qed

lemma py_min_no_nan:
  assumes "xs \<noteq> []" "\<forall>y\<in>set xs. y \<noteq> NaN"
  shows "\<exists>m. py_min xs = Some m \<and> m \<in> set xs \<and> (\<forall>y\<in>set xs. fle m y)"
proof -
  from assms obtain x rest where xs: "xs = x # rest" by (cases xs) auto
  with assms py_min_loop_bound [of x rest] show ?thesis by (simp add: py_min_def)
qed

lemma py_max_no_nan:
  assumes "xs \<noteq> []" "\<forall>y\<in>set xs. y \<noteq> NaN"
  shows "\<exists>m. py_max xs = Some m \<and> m \<in> set xs \<and> (\<forall>y\<in>set xs. fle y m)"
proof -
  from assms obtain x rest where xs: "xs = x # rest" by (cases xs) auto
  with assms py_max_loop_bound [of x rest] show ?thesis by (simp add: py_max_def)
qed

text \<open>
  So on such a history \<open>get_best_value\<close> returns the extremum for the direction, and
  \<open>get_best_t\<close> the time index of the earliest observation that has this value.
\<close>

lemma history_values_nth:
  "history_values h = Inr hv \<Longrightarrow>
   length hv = length h \<and> (\<forall>i<length h. \<exists>t. h ! i = MetricObservation (hv ! i) t)"
proof (induction h arbitrary: hv)
  case Nil
  then show ?case by simp
next
  case (Cons obs h)
  from Cons.prems obtain v t where obs: "obs = MetricObservation v t"
    by (cases obs) simp_all
  from Cons.prems obs obtain vs where vs: "history_values h = Inr vs" "hv = v # vs"
    by (auto split: sum.splits)
  from Cons.IH [OF vs(1)] have ih: "length vs = length h"
    "\<forall>i<length h. \<exists>t. h ! i = MetricObservation (vs ! i) t" by auto
  show ?case
  proof (intro conjI allI impI)
    show "length hv = length (obs # h)" using ih vs by simp
  next
    fix i assume "i < length (obs # h)"
    then show "\<exists>t. (obs # h) ! i = MetricObservation (hv ! i) t"
      using ih obs vs by (cases i) auto
  qed
qed

lemma get_best_value_no_nan:
  assumes "get_history tr name = Inr h" "h \<noteq> []" "history_values h = Inr hv"
    "\<forall>x\<in>set hv. x \<noteq> NaN" "map_of (directions tr) name = Some d"
  shows "\<exists>m. get_best_value tr name = Inr (Some m) \<and> m \<in> set hv \<and>
     (\<forall>x\<in>set hv. if d = ''min'' then fle m x else fle x m)"
proof -
  have ne: "hv \<noteq> []" using history_values_nth [OF assms(3)] assms(2) by auto
  show ?thesis
  proof (cases "d = ''min''")
    case True
    from py_min_no_nan [OF ne assms(4)] obtain m where
      "py_min hv = Some m" "m \<in> set hv" "\<forall>y\<in>set hv. fle m y" by blast
    with assms True show ?thesis by (simp add: get_best_value_def)
  next
    case False
    from py_max_no_nan [OF ne assms(4)] obtain m where
      "py_max hv = Some m" "m \<in> set hv" "\<forall>y\<in>set hv. fle y m" by blast
    with assms False show ?thesis by (simp add: get_best_value_def)
  qed
qed

lemma get_best_t_no_nan:
  assumes "get_history tr name = Inr h" "h \<noteq> []" "history_values h = Inr hv"
    "\<forall>x\<in>set hv. x \<noteq> NaN" "map_of (directions tr) name = Some d"
  shows "\<exists>i m t. get_best_value tr name = Inr (Some m) \<and> get_best_t tr name = Inr (Some t) \<and>
     i < length h \<and> h ! i = MetricObservation m t \<and> (\<forall>j<i. attr_value (h ! j) \<noteq> Inr m)"
proof -
  note hn = history_values_nth [OF assms(3)]
  have ne: "hv \<noteq> []" using hn assms(2) by auto
  from get_best_value_no_nan [OF assms] obtain m where
    m: "get_best_value tr name = Inr (Some m)" "m \<in> set hv"
       "\<forall>x\<in>set hv. if d = ''min'' then fle m x else fle x m" by blast
  define i where "i = (if d = ''min'' then np_argmin hv else np_argmax hv)"
  have i: "i < length hv \<and> hv ! i = m \<and> (\<forall>j<i. hv ! j \<noteq> hv ! i)"
  proof (cases "d = ''min''")
    case True
    from np_argmin_no_nan [OF ne assms(4)] True
    have a: "i < length hv" "\<forall>y\<in>set hv. fle (hv ! i) y" "\<forall>j<i. hv ! j \<noteq> hv ! i"
      by (simp_all add: i_def)
    have "fle (hv ! i) m" using a m by blast
    moreover have "fle m (hv ! i)" using a(1) m(3) True by simp
    ultimately have "hv ! i = m" by (rule fle_antisym)
    with a show ?thesis by simp
  next
    case False
    from np_argmax_no_nan [OF ne assms(4)] False
    have a: "i < length hv" "\<forall>y\<in>set hv. fle y (hv ! i)" "\<forall>j<i. hv ! j \<noteq> hv ! i"
      by (simp_all add: i_def)
    have "fle m (hv ! i)" using a m by blast
    moreover have "fle (hv ! i) m" using a(1) m(3) False by simp
    ultimately have "hv ! i = m" by (rule fle_antisym [symmetric])
    with a show ?thesis by simp
  qed
  from i hn obtain t where t: "h ! i = MetricObservation m t" by auto
  have bt: "get_best_t tr name = Inr (Some t)"
    using assms t by (simp add: get_best_t_def i_def [symmetric])
  have first: "\<forall>j<i. attr_value (h ! j) \<noteq> Inr m"
  proof (intro allI impI)
    fix j assume j: "j < i"
    with i hn have "j < length h" by simp
    with hn obtain t' where "h ! j = MetricObservation (hv ! j) t'" by blast
    moreover have "hv ! j \<noteq> m" using i j by auto
    ultimately show "attr_value (h ! j) \<noteq> Inr m" by simp
  qed
  from m(1) bt i hn t first show ?thesis by auto
qed

section \<open>Best value and best time index when a NaN was recorded\<close>

text \<open>
  Claim C2 asks for the NaN-aware extremum. \<open>get_best_value\<close> calls the builtins
  \<^verbatim>\<open>min\<close> and \<^verbatim>\<open>max\<close>, which keep a NaN that comes first: after the updates
  \<open>(NaN, 0)\<close> and \<open>(1.0, 1)\<close> of \<^verbatim>\<open>loss\<close> it returns NaN, where \<^verbatim>\<open>nanmin\<close>, which
  \<open>update\<close> and \<open>get_statistics\<close> use on the same values, gives \<open>1.0\<close>.
\<close>

theorem get_best_value_after_nan:
  "get_best_value
     (snd (update sample_catalog
            (snd (update sample_catalog empty_tracker ''loss'' (Coercible NaN) 0))
            ''loss'' (Coercible (Fin 1)) 1)) ''loss'' = Inr (Some NaN) \<and>
   nanmin [NaN, Fin 1] = Fin 1"
  unfolding loss_nan_one_state
  by (simp add: get_best_value_def get_history_def py_min_def flt_def nanmin_def
      replace_nan_def amin_def)

text \<open>
  Claim C6 asks for the time index of the observation that achieves the value of
  \<open>get_best_value\<close>. After the updates \<open>(1.0, 0)\<close> and \<open>(NaN, 1)\<close> of \<^verbatim>\<open>loss\<close>,
  \<open>get_best_value\<close> returns \<open>1.0\<close>, recorded at time index \<open>0\<close>, and \<open>get_best_t\<close> returns
  \<open>1\<close>, the time index of the NaN: \<^verbatim>\<open>argmin\<close> takes a NaN for the extremum.
\<close>

theorem get_best_t_with_nan:
  "get_best_value
     (snd (update sample_catalog
            (snd (update sample_catalog empty_tracker ''loss'' (Coercible (Fin 1)) 0))
            ''loss'' (Coercible NaN) 1)) ''loss'' = Inr (Some (Fin 1)) \<and>
   get_best_t
     (snd (update sample_catalog
            (snd (update sample_catalog empty_tracker ''loss'' (Coercible (Fin 1)) 0))
            ''loss'' (Coercible NaN) 1)) ''loss'' = Inr (Some 1) \<and>
   get_history
     (snd (update sample_catalog
            (snd (update sample_catalog empty_tracker ''loss'' (Coercible (Fin 1)) 0))
            ''loss'' (Coercible NaN) 1)) ''loss''
     = Inr [MetricObservation (Fin 1) 0, MetricObservation NaN 1]"
  unfolding loss_one_nan_state
  by (simp add: get_best_value_def get_best_t_def get_history_def py_min_def flt_def
      np_argmin_def fge_def)

end
